theory Spec2Isabelle
  imports Main
begin

section \<open>Strings of the program\<close>

text \<open>
  A Python \<open>str\<close> is modelled as an Isabelle \<open>string\<close>; a \<open>char\<close> stands for the code
  point of the same number (0 to 255). On this range the decimal digits of the regular
  expression class \<open>\d\<close> and of \<open>int()\<close> are \<open>0\<close> to \<open>9\<close>, and the white space of
  \<open>str.strip()\<close> and the line boundaries of \<open>str.splitlines()\<close> are the ones listed below.
\<close>

definition NL :: char where
  "NL = CHR 0x0A"

definition is_digit :: "char \<Rightarrow> bool" where
  "is_digit c = (c \<in> set ''0123456789'')"

definition is_space :: "char \<Rightarrow> bool" where
  "is_space c = (c \<in> set [CHR 0x09, CHR 0x0A, CHR 0x0B, CHR 0x0C, CHR 0x0D, CHR 0x1C,
                            CHR 0x1D, CHR 0x1E, CHR 0x1F, CHR 0x20, CHR 0x85, CHR 0xA0])"

text \<open>\<open>s.lstrip("/")\<close>\<close>

definition lstrip_slash :: "string \<Rightarrow> string" where
  "lstrip_slash s = dropWhile (\<lambda>c. c = CHR ''/'') s"

text \<open>\<open>s.strip()\<close>\<close>

definition py_strip :: "string \<Rightarrow> string" where
  "py_strip s = rev (dropWhile is_space (rev (dropWhile is_space s)))"

text \<open>\<open>sep.join(xs)\<close>\<close>

fun py_join :: "string \<Rightarrow> string list \<Rightarrow> string" where
  "py_join sep [] = []"
| "py_join sep [x] = x"
| "py_join sep (x # y # ys) = x @ sep @ py_join sep (y # ys)"

text \<open>\<open>s.split(c)\<close> for a separator of one character: the result is never empty.\<close>

fun py_split :: "char \<Rightarrow> string \<Rightarrow> string list" where
  "py_split c [] = [[]]"
| "py_split c (x # xs) =
     (if x = c then [] # py_split c xs
      else (case py_split c xs of
              [] \<Rightarrow> [[x]]
            | y # ys \<Rightarrow> (x # y) # ys))"

text \<open>
  \<open>s.splitlines()\<close>: a line ends at \<open>\n\<close>, \<open>\r\<close>, \<open>\r\n\<close>, \<open>\v\<close>, \<open>\f\<close>, the separators
  \<open>\x1c\<close>, \<open>\x1d\<close>, \<open>\x1e\<close> and \<open>\x85\<close>; the boundaries are dropped and a final boundary
  opens no empty line.
\<close>

definition is_linebreak :: "char \<Rightarrow> bool" where
  "is_linebreak c = (c \<in> set [CHR 0x0A, CHR 0x0D, CHR 0x0B, CHR 0x0C, CHR 0x1C, CHR 0x1D,
                                CHR 0x1E, CHR 0x85])"

fun splitlines_acc :: "string \<Rightarrow> string \<Rightarrow> string list" where
  "splitlines_acc cur [] = (if cur = [] then [] else [cur])"
| "splitlines_acc cur (c # cs) =
     (if c = CHR 0x0D then
        (case cs of
           [] \<Rightarrow> [cur]
         | d # ds \<Rightarrow> if d = CHR 0x0A then cur # splitlines_acc [] ds
                     else cur # splitlines_acc [] cs)
      else if is_linebreak c then cur # splitlines_acc [] cs
      else splitlines_acc (cur @ [c]) cs)"

definition splitlines :: "string \<Rightarrow> string list" where
  "splitlines s = splitlines_acc [] s"

text \<open>\<open>s * n\<close> for an integer \<open>n\<close>: the empty string when \<open>n\<close> is not positive.\<close>

definition py_repeat :: "string \<Rightarrow> int \<Rightarrow> string" where
  "py_repeat s n = concat (replicate (nat n) s)"

text \<open>\<open>xs[:k]\<close>: a negative \<open>k\<close> counts from the end.\<close>

definition py_slice_to :: "'a list \<Rightarrow> int \<Rightarrow> 'a list" where
  "py_slice_to xs k =
     (if 0 \<le> k then take (nat k) xs else take (nat (int (length xs) + k)) xs)"

text \<open>
  \<open>int(s)\<close> in base 10: white space at both ends is skipped, then come an optional sign
  and digits, with single underscores allowed between two digits. The white space of
  \<open>int()\<close> is narrower than that of \<open>strip()\<close>: the separators \<open>\x1c\<close> to \<open>\x1f\<close> are not
  skipped, so a text that has one is no integer. A text with more digits than the
  interpreter's limit (4300 unless the interpreter is configured otherwise; leading zeros
  count, underscores and the sign do not) is refused as well.
\<close>

definition is_int_space :: "char \<Rightarrow> bool" where
  "is_int_space c = (c \<in> set [CHR 0x09, CHR 0x0A, CHR 0x0B, CHR 0x0C, CHR 0x0D, CHR 0x20,
                                CHR 0x85, CHR 0xA0])"

definition int_strip :: "string \<Rightarrow> string" where
  "int_strip s = rev (dropWhile is_int_space (rev (dropWhile is_int_space s)))"

definition INT_MAX_STR_DIGITS :: nat where
  "INT_MAX_STR_DIGITS = 4300"

datatype error = HTTPError | ValueError | KeyError | AttributeError

fun int_body :: "string \<Rightarrow> bool" where
  "int_body [] = False"
| "int_body [c] = is_digit c"
| "int_body (c # d # r) =
     (is_digit c \<and> (if d = CHR ''_'' then int_body r else int_body (d # r)))"

definition digit_val :: "char \<Rightarrow> int" where
  "digit_val c = int (of_char c) - 48"

definition int_val :: "string \<Rightarrow> int" where
  "int_val s = foldl (\<lambda>a c. 10 * a + digit_val c) 0 (filter is_digit s)"

definition int_literal :: "string \<Rightarrow> bool" where
  "int_literal s = (int_body s \<and> length (filter is_digit s) \<le> INT_MAX_STR_DIGITS)"

definition py_int :: "string \<Rightarrow> error + int" where
  "py_int s =
     (case int_strip s of
        [] \<Rightarrow> Inl ValueError
      | c # r \<Rightarrow>
          if c = CHR ''-'' then (if int_literal r then Inr (- int_val r) else Inl ValueError)
          else if c = CHR ''+'' then (if int_literal r then Inr (int_val r) else Inl ValueError)
          else if int_literal (c # r) then Inr (int_val (c # r))
          else Inl ValueError)"

section \<open>Fetched pages\<close>

text \<open>
  A parsed page is modelled by the answers to the queries the program puts to it:
  \<open>soup.text\<close>, the \<open>a\<close> tags in document order (each with its \<open>href\<close> attribute and its
  \<open>.string\<close>, when it has them), the text of the first \<open>title\<close> tag, and the rows
  \<open>find_all("tr", class_="athing comtr")\<close>.
\<close>

record anchor =
  href :: "string option"
  a_string :: "string option"

text \<open>The content of a comment container: text nodes and elements with name and classes.\<close>

datatype node = Text string | Elem string "string list" "node list"

datatype img_tag = Img (width: "string option")

datatype ind_td = IndTd (img: "img_tag option")

record row =
  row_id :: "string option"
  ind :: "ind_td option"
  hnuser :: "string option"
  comment :: "node list option"

record soup =
  soup_text :: string
  anchors :: "anchor list"
  title :: "string option"
  comment_rows :: "row list"

text \<open>
  The world a run sees: the page that \<open>requests.get(url)\<close>, \<open>raise_for_status()\<close> and
  the parser give for each URL (\<open>None\<close> when the request fails), and the order in which
  iterating a Python set yields the elements that were inserted in a given order (the
  interpreter fixes it; the program does not).
\<close>

record world =
  web :: "string \<Rightarrow> soup option"
  set_order :: "string list \<Rightarrow> string list"


section \<open>Link extractor\<close>

definition BASE_URL :: string where
  "BASE_URL = ''https://news.ycombinator.com''"

definition LINK_LIMIT :: int where
  "LINK_LIMIT = 10"

text \<open>\<open>user_exists\<close>, lines 36 to 37.\<close>

definition user_exists :: "soup \<Rightarrow> bool" where
  "user_exists sp = (soup_text sp \<noteq> ''No such user.'')"

text \<open>
  The pattern \<open>^/?item\?id=\d+$\<close> under \<open>search\<close>: an optional slash, the literal
  \<open>item?id=\<close>, one digit or more, and then the end of the string or a last newline
  (which \<open>$\<close> accepts).
\<close>

definition strip_prefix :: "string \<Rightarrow> string \<Rightarrow> string option" where
  "strip_prefix p s = (if take (length p) s = p then Some (drop (length p) s) else None)"

definition digits_to_end :: "string \<Rightarrow> bool" where
  "digits_to_end r =
     (takeWhile is_digit r \<noteq> [] \<and>
      (dropWhile is_digit r = [] \<or> dropWhile is_digit r = [NL]))"

definition item_at :: "string \<Rightarrow> bool" where
  "item_at s = (case strip_prefix ''item?id='' s of None \<Rightarrow> False | Some r \<Rightarrow> digits_to_end r)"

definition pattern_matches :: "string \<Rightarrow> bool" where
  "pattern_matches s =
     (item_at s \<or> (case s of [] \<Rightarrow> False | c # r \<Rightarrow> c = CHR ''/'' \<and> item_at r))"

text \<open>The element of the set comprehension, lines 50 to 52.\<close>

definition absolute :: "string \<Rightarrow> string" where
  "absolute h = BASE_URL @ ''/'' @ lstrip_slash h"

text \<open>\<open>soup.find_all("a", href=pattern)\<close>: an anchor without \<open>href\<close> never matches.\<close>

definition matching_hrefs :: "anchor list \<Rightarrow> string list" where
  "matching_hrefs as =
     concat (map (\<lambda>a. case href a of None \<Rightarrow> [] | Some h \<Rightarrow> if pattern_matches h then [h] else []) as)"

text \<open>\<open>soup.find("a", string="More")\<close>: the first anchor whose \<open>.string\<close> is \<open>More\<close>.\<close>

definition find_more :: "anchor list \<Rightarrow> anchor option" where
  "find_more as = List.find (\<lambda>a. a_string a = Some ''More'') as"

text \<open>
  \<open>get_item_links_from_page\<close>, lines 40 to 62. The links are returned in the order in
  which the caller's \<open>extend\<close> will iterate the set.
\<close>

definition get_item_links_from_page :: "world \<Rightarrow> string \<Rightarrow> error + (string list \<times> string option)" where
  "get_item_links_from_page w url =
     (case web w url of
        None \<Rightarrow> Inl HTTPError
      | Some sp \<Rightarrow>
          if \<not> user_exists sp then Inl ValueError
          else
            (let links = set_order w (map absolute (matching_hrefs (anchors sp))) in
             case find_more (anchors sp) of
               None \<Rightarrow> Inr (links, None)
             | Some more_link \<Rightarrow>
                 (case href more_link of
                    None \<Rightarrow> Inl KeyError
                  | Some h \<Rightarrow> Inr (links, Some (BASE_URL @ ''/'' @ h)))))"

section \<open>Pagination walker\<close>

text \<open>
  The loop of \<open>retrieve_user_favorite_links\<close>, lines 70 to 82, with the list of links so
  far and the list of URLs fetched so far as its state. \<open>while url\<close> ends on \<open>None\<close> and
  on the empty string. The loop may run forever (a listing whose pages point at each
  other and hold too few links): then the result is \<open>None\<close>. The log lines, and the
  temporary file that receives the returned list after the loop, do not change what is
  returned and are left out.
\<close>

partial_function (option) walk ::
  "world \<Rightarrow> int \<Rightarrow> string option \<Rightarrow> string list \<Rightarrow> string list
     \<Rightarrow> (string list \<times> (error + string list)) option" where
  "walk w limit url all_links fetched =
     (case url of
        None \<Rightarrow> Some (fetched, Inr all_links)
      | Some u \<Rightarrow>
          if u = [] then Some (fetched, Inr all_links)
          else
            (case get_item_links_from_page w u of
               Inl e \<Rightarrow> Some (fetched @ [u], Inl e)
             | Inr (links, next_page) \<Rightarrow>
                 if limit \<le> int (length (all_links @ links))
                 then Some (fetched @ [u], Inr (py_slice_to (all_links @ links) limit))
                 else walk w limit next_page (all_links @ links) (fetched @ [u])))"

declare walk.simps [code]

definition favorites_url :: "string \<Rightarrow> string" where
  "favorites_url user = BASE_URL @ ''/favorites?id='' @ user"

text \<open>The run with the URLs it fetched, and the value the function returns or raises.\<close>

definition retrieve_traced :: "world \<Rightarrow> string \<Rightarrow> int \<Rightarrow> (string list \<times> (error + string list)) option" where
  "retrieve_traced w user limit = walk w limit (Some (favorites_url user)) [] []"

definition retrieve_user_favorite_links :: "world \<Rightarrow> string \<Rightarrow> int \<Rightarrow> (error + string list) option" where
  "retrieve_user_favorite_links w user limit = map_option snd (retrieve_traced w user limit)"

section \<open>Comment tree flattener\<close>

text \<open>A comment record is the triple the program appends: depth, author, body.\<close>

type_synonym comment_record = "int \<times> string \<times> string"

text \<open>
  \<open>int(indent_td.img["width"]) if indent_td and indent_td.img else 0\<close>, line 117: a
  missing \<open>width\<close> attribute raises \<open>KeyError\<close>, a text that is no integer \<open>ValueError\<close>.
\<close>

definition indent_px :: "row \<Rightarrow> error + int" where
  "indent_px r =
     (case ind r of
        None \<Rightarrow> Inr 0
      | Some td \<Rightarrow>
          (case img td of
             None \<Rightarrow> Inr 0
           | Some im \<Rightarrow>
               (case width im of
                  None \<Rightarrow> Inl KeyError
                | Some wd \<Rightarrow> py_int wd)))"

text \<open>
  Lines 125 to 127: every \<open>div\<close> or \<open>span\<close> below the container that carries the class
  \<open>reply\<close> or \<open>unvoted\<close> is removed with what it holds; \<open>get_text("\n")\<close> joins the
  remaining text nodes, in document order, with newlines.
\<close>

definition removable :: "node \<Rightarrow> bool" where
  "removable n =
     (case n of
        Text s \<Rightarrow> False
      | Elem name classes kids \<Rightarrow>
          name \<in> set [''div'', ''span''] \<and>
          list_ex (\<lambda>c. c \<in> set [''reply'', ''unvoted'']) classes)"

fun decompose :: "node \<Rightarrow> node" where
  "decompose (Text s) = Text s"
| "decompose (Elem name classes kids) =
     Elem name classes (filter (\<lambda>k. \<not> removable k) (map decompose kids))"

fun all_strings :: "node \<Rightarrow> string list" where
  "all_strings (Text s) = [s]"
| "all_strings (Elem name classes kids) = concat (map all_strings kids)"

definition get_text :: "string \<Rightarrow> node list \<Rightarrow> string" where
  "get_text sep kids = py_join sep (concat (map all_strings kids))"

definition comment_text :: "node list \<Rightarrow> string" where
  "comment_text kids =
     py_strip (get_text [NL] (filter (\<lambda>k. \<not> removable k) (map decompose kids)))"

text \<open>
  The body of the loop over the rows, lines 115 to 129, in the order of the source:
  \<open>row["id"]\<close> (a \<open>KeyError\<close> without the attribute), the indentation, the author (which
  cannot fail), the comment container (\<open>None.find_all\<close> is an \<open>AttributeError\<close>).
\<close>

definition row_record :: "row \<Rightarrow> error + comment_record" where
  "row_record r =
     (case row_id r of
        None \<Rightarrow> Inl KeyError
      | Some cid \<Rightarrow>
          (case indent_px r of
             Inl e \<Rightarrow> Inl e
           | Inr px \<Rightarrow>
               (case comment r of
                  None \<Rightarrow> Inl AttributeError
                | Some kids \<Rightarrow>
                    Inr (px div 40,
                         (case hnuser r of Some t \<Rightarrow> t | None \<Rightarrow> ''[deleted]''),
                         comment_text kids))))"

fun flatten :: "comment_record list \<Rightarrow> row list \<Rightarrow> error + comment_record list" where
  "flatten comments [] = Inr comments"
| "flatten comments (r # rs) =
     (case row_record r of
        Inl e \<Rightarrow> Inl e
      | Inr c \<Rightarrow> flatten (comments @ [c]) rs)"

section \<open>Document renderer\<close>

definition CONTEXT_PROMPT :: string where
  "CONTEXT_PROMPT =
     [NL] @ ''## Context'' @ [NL, NL] @
     ''The following is a Hacker News thread in markdown format. The comments discuss a'' @ [NL] @
     ''certain link, of which the content (besides the title) is not included here. The'' @ [NL] @
     ''comments are indented according to the level of the comment, with the top-level'' @ [NL] @
     ''comment being unindented.'' @ [NL]"

text \<open>The loop of lines 137 to 143, with \<open>md_lines\<close> as its state.\<close>

fun render_comments :: "string list \<Rightarrow> comment_record list \<Rightarrow> string list" where
  "render_comments md_lines [] = md_lines"
| "render_comments md_lines ((indent, author, body) # rest) =
     render_comments
       (md_lines
        @ [py_repeat ''  '' indent @ ''- **'' @ author @ ''**:'' @ [NL]]
        @ map (\<lambda>line. py_repeat ''  '' indent @ ''  '' @ line) (splitlines body)
        @ [[]])
       rest"

text \<open>Lines 131 to 145.\<close>

definition render :: "string \<Rightarrow> comment_record list \<Rightarrow> string" where
  "render title_text comments =
     py_join [NL]
       (render_comments
          [''# '' @ title_text @ [NL, NL],
           py_strip CONTEXT_PROMPT @ [NL, NL],
           ''## Comments'' @ [NL, NL]]
          comments)"

text \<open>\<open>fetch_hn_thread_markdown\<close>, lines 100 to 145.\<close>

definition title_of :: "soup \<Rightarrow> string \<Rightarrow> string" where
  "title_of sp url =
     (case title sp of
        Some t \<Rightarrow> t
      | None \<Rightarrow> ''hn_'' @ last (py_split (CHR ''='') url))"

definition fetch_hn_thread_markdown :: "world \<Rightarrow> string \<Rightarrow> error + (string \<times> string)" where
  "fetch_hn_thread_markdown w url =
     (case web w url of
        None \<Rightarrow> Inl HTTPError
      | Some sp \<Rightarrow>
          (case flatten [] (comment_rows sp) of
             Inl e \<Rightarrow> Inl e
           | Inr comments \<Rightarrow> Inr (title_of sp url, render (title_of sp url) comments)))"

section \<open>Notions the properties are stated with\<close>

text \<open>
  The links of the first \<open>n\<close> pages of the listing that starts at \<open>url\<close>, page after page
  along the \<open>More\<close> links, up to a page that cannot be extracted or has no successor.
\<close>

fun discoverable :: "world \<Rightarrow> nat \<Rightarrow> string \<Rightarrow> string list" where
  "discoverable w 0 url = []"
| "discoverable w (Suc n) url =
     (case get_item_links_from_page w url of
        Inl e \<Rightarrow> []
      | Inr (links, next_page) \<Rightarrow>
          links @ (case next_page of None \<Rightarrow> [] | Some u \<Rightarrow> discoverable w n u))"

text \<open>
  The listing that starts at \<open>url\<close> ends within \<open>n\<close> pages: each page can be extracted and
  the last one has no \<open>More\<close> link.
\<close>

fun listing_ends :: "world \<Rightarrow> nat \<Rightarrow> string \<Rightarrow> bool" where
  "listing_ends w 0 url = False"
| "listing_ends w (Suc n) url =
     (case get_item_links_from_page w url of
        Inl e \<Rightarrow> False
      | Inr (links, next_page) \<Rightarrow>
          (case next_page of None \<Rightarrow> True | Some u \<Rightarrow> listing_ends w n u))"

text \<open>The lines of a document, and one line standing right before another.\<close>

definition doc_lines :: "string \<Rightarrow> string list" where
  "doc_lines d = py_split NL d"

fun follows :: "'a \<Rightarrow> 'a \<Rightarrow> 'a list \<Rightarrow> bool" where
  "follows x y (a # b # r) = ((a = x \<and> b = y) \<or> follows x y (b # r))"
| "follows x y r = False"

section \<open>A small site\<close>

text \<open>
  Two listing pages for the user \<open>u\<close> (the second repeats an item of the first), the
  answer for a user that does not exist, a listing whose item links carry a path in
  front, and two thread pages, the second with a row that has no comment container.
\<close>

definition page_one :: soup where
  "page_one =
     \<lparr>soup_text = ''favorites'',
      anchors = [\<lparr>href = Some ''item?id=1'', a_string = Some ''First''\<rparr>,
                 \<lparr>href = Some ''/item?id=2'', a_string = Some ''Second''\<rparr>,
                 \<lparr>href = Some ''item?id=1'', a_string = Some ''12 comments''\<rparr>,
                 \<lparr>href = Some ''news'', a_string = Some ''Hacker News''\<rparr>,
                 \<lparr>href = Some ''favorites?id=u&p=2'', a_string = Some ''More''\<rparr>],
      title = Some ''favorites'', comment_rows = []\<rparr>"

definition page_two :: soup where
  "page_two =
     \<lparr>soup_text = ''favorites'',
      anchors = [\<lparr>href = Some ''item?id=1'', a_string = Some ''First''\<rparr>,
                 \<lparr>href = Some ''item?id=3'', a_string = Some ''Third''\<rparr>],
      title = Some ''favorites'', comment_rows = []\<rparr>"

definition page_no_user :: soup where
  "page_no_user =
     \<lparr>soup_text = ''No such user.'', anchors = [], title = None, comment_rows = []\<rparr>"

definition page_stray :: soup where
  "page_stray =
     \<lparr>soup_text = ''favorites'',
      anchors = [\<lparr>href = Some ''news/item?id=5'', a_string = Some ''Fifth''\<rparr>,
                 \<lparr>href = Some ''//item?id=6'', a_string = Some ''Sixth''\<rparr>],
      title = Some ''favorites'', comment_rows = []\<rparr>"

definition row_alice :: row where
  "row_alice =
     \<lparr>row_id = Some ''101'', ind = Some (IndTd (Some (Img (Some ''0'')))),
      hnuser = Some ''alice'', comment = Some [Elem ''div'' [''commtext''] [Text ''hi'']]\<rparr>"

definition row_bob :: row where
  "row_bob =
     \<lparr>row_id = Some ''102'', ind = Some (IndTd (Some (Img (Some ''40'')))),
      hnuser = Some ''bob'',
      comment = Some [Elem ''div'' [''commtext''] [Text ''reply'', Elem ''p'' [] [Text ''line2'']],
                      Elem ''div'' [''reply''] [Text ''reply'']]\<rparr>"

definition row_deleted :: row where
  "row_deleted =
     \<lparr>row_id = Some ''103'', ind = None, hnuser = None,
      comment = Some [Elem ''div'' [''commtext''] [Text ''[deleted]'']]\<rparr>"

definition row_broken :: row where
  "row_broken =
     \<lparr>row_id = Some ''104'', ind = Some (IndTd (Some (Img (Some ''80'')))),
      hnuser = Some ''carol'', comment = None\<rparr>"

definition thread_page :: soup where
  "thread_page =
     \<lparr>soup_text = ''Test Thread'', anchors = [], title = Some ''Test Thread'',
      comment_rows = [row_alice, row_bob, row_deleted]\<rparr>"

definition thread_broken :: soup where
  "thread_broken =
     \<lparr>soup_text = ''Test Thread'', anchors = [], title = Some ''Test Thread'',
      comment_rows = [row_alice, row_broken, row_bob]\<rparr>"

definition site :: "string \<Rightarrow> soup option" where
  "site url =
     (if url = ''https://news.ycombinator.com/favorites?id=u'' then Some page_one
      else if url = ''https://news.ycombinator.com/favorites?id=u&p=2'' then Some page_two
      else if url = ''https://news.ycombinator.com/favorites?id=ghost'' then Some page_no_user
      else if url = ''https://news.ycombinator.com/favorites?id=s'' then Some page_stray
      else if url = ''https://news.ycombinator.com/item?id=1'' then Some thread_page
      else if url = ''https://news.ycombinator.com/item?id=2'' then Some thread_broken
      else None)"

text \<open>A set iteration that yields the elements in the order of their first insertion.\<close>

definition first_seen :: "string list \<Rightarrow> string list" where
  "first_seen xs = rev (remdups (rev xs))"

definition small_world :: world where
  "small_world = \<lparr>web = site, set_order = first_seen\<rparr>"

text \<open>The records of the first thread page, and the same site under another set order.\<close>

definition thread_records :: "comment_record list" where
  "thread_records =
     [(0, ''alice'', ''hi''),
      (1, ''bob'', ''reply'' @ [NL] @ ''line2''),
      (0, ''[deleted]'', ''[deleted]'')]"

text \<open>
  Rows of every shape that gets through: with and without indentation cell, a cell without
  image, with and without author link.
\<close>

definition row_noimg :: row where
  "row_noimg =
     \<lparr>row_id = Some ''105'', ind = Some (IndTd None), hnuser = Some ''dave'',
      comment = Some [Elem ''div'' [''commtext''] [Text ''flat'']]\<rparr>"

definition row_ghost :: row where
  "row_ghost =
     \<lparr>row_id = Some ''106'', ind = Some (IndTd (Some (Img (Some '' 80 '')))), hnuser = None,
      comment = Some [Elem ''div'' [''commtext''] [Text ''[dead]'']]\<rparr>"

definition mixed_rows :: "row list" where
  "mixed_rows = [row_alice, row_bob, row_deleted, row_noimg, row_ghost]"

definition mixed_records :: "comment_record list" where
  "mixed_records =
     [(0, ''alice'', ''hi''),
      (1, ''bob'', ''reply'' @ [NL] @ ''line2''),
      (0, ''[deleted]'', ''[deleted]''),
      (0, ''dave'', ''flat''),
      (2, ''[deleted]'', ''[dead]'')]"

definition other_world :: world where
  "other_world = \<lparr>web = site, set_order = remdups\<rparr>"

section \<open>Facts about the flattener\<close>

lemma flatten_Inr:
  "flatten acc rows = Inr cs \<longleftrightarrow> (\<exists>ds. map row_record rows = map Inr ds \<and> cs = acc @ ds)"
proof (induction rows arbitrary: acc)
  case Nil
  then show ?case by auto
next
  case (Cons r rs)
  show ?case
  proof (cases "row_record r")
    case (Inl e)
    then show ?thesis by (auto simp: map_eq_Cons_conv)
  next
    case (Inr c)
    then show ?thesis by (auto simp: Cons.IH map_eq_Cons_conv)
  qed
qed

lemma flatten_nth:
  assumes "flatten [] rows = Inr cs" and "i < length rows"
  shows "row_record (rows ! i) = Inr (cs ! i)"
proof -
  from assms(1) have m: "map row_record rows = map Inr cs" by (simp add: flatten_Inr)
  then have "length rows = length cs" by (metis length_map)
  with m assms(2) show ?thesis by (metis nth_map)
qed

lemma flatten_Inl:
  "flatten acc rows = Inl e \<Longrightarrow> \<exists>r\<in>set rows. row_record r = Inl e"
  by (induction rows arbitrary: acc) (auto split: sum.splits)

lemma flatten_fails:
  "r \<in> set rows \<Longrightarrow> row_record r = Inl e \<Longrightarrow> \<exists>e'. flatten acc rows = Inl e'"
  by (induction rows arbitrary: acc) (auto split: sum.splits)

lemma row_record_depth:
  "row_record r = Inr c \<Longrightarrow> \<exists>px. indent_px r = Inr px \<and> fst c = px div 40"
  by (auto simp: row_record_def split: option.splits sum.splits)

lemma row_record_author:
  "row_record r = Inr c \<Longrightarrow>
     fst (snd c) = (case hnuser r of Some t \<Rightarrow> t | None \<Rightarrow> ''[deleted]'')"
  by (auto simp: row_record_def split: option.splits sum.splits)

lemma row_record_no_container:
  "comment r = None \<Longrightarrow> \<exists>e. row_record r = Inl e"
  by (auto simp: row_record_def split: option.splits sum.splits)

lemma row_record_Inl_cases:
  "row_record q = Inl e \<Longrightarrow> row_id q \<noteq> None \<Longrightarrow> indent_px q = Inr px \<Longrightarrow> e = AttributeError"
  by (auto simp: row_record_def split: option.splits sum.splits)

lemma thread_page_flat: "flatten [] (comment_rows thread_page) = Inr thread_records"
  by code_simp

lemma indent_px_readable:
  "(\<forall>td im. ind r = Some td \<and> img td = Some im \<longrightarrow>
      (\<exists>wd px. width im = Some wd \<and> py_int wd = Inr px)) \<Longrightarrow>
   \<exists>px. indent_px r = Inr px"
  by (auto simp: indent_px_def split: option.splits)

lemma row_record_succeeds:
  "row_id r \<noteq> None \<Longrightarrow> comment r \<noteq> None \<Longrightarrow> \<exists>px. indent_px r = Inr px \<Longrightarrow>
   \<exists>c. row_record r = Inr c"
  by (auto simp: row_record_def split: option.splits)

lemma flatten_succeeds:
  "(\<forall>r\<in>set rows. \<exists>c. row_record r = Inr c) \<Longrightarrow>
   \<exists>cs. flatten acc rows = Inr cs \<and> length cs = length acc + length rows"
proof (induction rows arbitrary: acc)
  case Nil
  then show ?case by simp
next
  case (Cons r rs)
  then obtain c where c: "row_record r = Inr c" by auto
  from Cons.prems have "\<forall>r\<in>set rs. \<exists>c. row_record r = Inr c" by simp
  from Cons.IH [OF this, of "acc @ [c]"] c show ?case by auto
qed

lemma intact_rows_flatten:
  assumes "\<forall>r\<in>set rows. row_id r \<noteq> None \<and> comment r \<noteq> None \<and>
             (\<forall>td im. ind r = Some td \<and> img td = Some im \<longrightarrow>
                (\<exists>wd px. width im = Some wd \<and> py_int wd = Inr px))"
  shows "\<exists>cs. flatten [] rows = Inr cs \<and> length cs = length rows"
proof -
  have "\<forall>r\<in>set rows. \<exists>c. row_record r = Inr c"
  proof
    fix r assume "r \<in> set rows"
    with assms have "row_id r \<noteq> None" "comment r \<noteq> None"
      and "\<forall>td im. ind r = Some td \<and> img td = Some im \<longrightarrow>
                (\<exists>wd px. width im = Some wd \<and> py_int wd = Inr px)"
      by blast+
    then show "\<exists>c. row_record r = Inr c"
      using indent_px_readable row_record_succeeds by blast
  qed
  from flatten_succeeds [OF this, of "[]"] show ?thesis by simp
qed

lemma mixed_rows_flat: "flatten [] mixed_rows = Inr mixed_records"
  by code_simp

lemma mixed_rows_intact:
  "\<forall>r\<in>set mixed_rows. row_id r \<noteq> None \<and> comment r \<noteq> None \<and>
             (\<forall>td im. ind r = Some td \<and> img td = Some im \<longrightarrow>
                (\<exists>wd px. width im = Some wd \<and> py_int wd = Inr px))"
proof -
  have a: "py_int ''0'' = Inr 0" by code_simp
  have b: "py_int ''40'' = Inr 40" by code_simp
  have c: "py_int '' 80 '' = Inr 80" by code_simp
  show ?thesis
    by (auto simp: mixed_rows_def row_alice_def row_bob_def row_deleted_def row_noimg_def
        row_ghost_def a b c)
qed

section \<open>Facts about the link extractor\<close>











section \<open>Facts about the walker\<close>

lemma favorites_url_nonempty: "favorites_url user \<noteq> []"
  by (simp add: favorites_url_def BASE_URL_def)

lemma next_page_nonempty:
  "get_item_links_from_page w u = Inr (links, Some v) \<Longrightarrow> v \<noteq> []"
  by (auto simp: get_item_links_from_page_def BASE_URL_def Let_def split: option.splits if_splits)

lemma py_slice_to_take: "0 \<le> k \<Longrightarrow> py_slice_to xs k = take (nat k) xs"
  by (simp add: py_slice_to_def)

lemma walk_length_le:
  assumes "walk w limit url all_links fetched = Some y"
  shows "0 \<le> limit \<longrightarrow> int (length all_links) \<le> limit \<longrightarrow>
         (\<forall>ls. snd y = Inr ls \<longrightarrow> int (length ls) \<le> limit)"
proof (rule walk.raw_induct
    [where P = "\<lambda>w limit url all_links fetched y.
       0 \<le> limit \<longrightarrow> int (length all_links) \<le> limit \<longrightarrow>
         (\<forall>ls. snd y = Inr ls \<longrightarrow> int (length ls) \<le> limit)", OF _ assms], goal_cases)
  case (1 walk w limit url all_links fetched y)
  show ?case
  proof (intro impI allI)
    fix ls
    assume L: "0 \<le> limit" and A: "int (length all_links) \<le> limit" and R: "snd y = Inr ls"
    show "int (length ls) \<le> limit"
    proof (cases url)
      case None
      with 1(2) R A show ?thesis by auto
    next
      case (Some u)
      show ?thesis
      proof (cases "u = []")
        case True
        with Some 1(2) R A show ?thesis by auto
      next
        case False
        show ?thesis
        proof (cases "get_item_links_from_page w u")
          case (Inl e)
          with Some False 1(2) R show ?thesis by auto
        next
          case (Inr p)
          obtain links nx where p: "p = (links, nx)" by (cases p)
          show ?thesis
          proof (cases "limit \<le> int (length (all_links @ links))")
            case True
            with Some False Inr p 1(2) R L show ?thesis
              by (auto simp: py_slice_to_take)
          next
            case False
            with Some \<open>u \<noteq> []\<close> Inr p 1(2)
            have "walk w limit nx (all_links @ links) (fetched @ [u]) = Some y" by simp
            from 1(1) [OF this] L False R show ?thesis by simp
          qed
        qed
      qed
    qed
  qed
qed

lemma discoverable_fail:
  "get_item_links_from_page w u = Inl e \<Longrightarrow> discoverable w n u = []"
  by (cases n) simp_all

lemma walk_reaches:
  assumes "0 \<le> limit"
  shows "get_item_links_from_page w u = Inr p \<Longrightarrow> u \<noteq> [] \<Longrightarrow>
         limit \<le> int (length (all_links @ discoverable w n u)) \<Longrightarrow>
         \<exists>tr. walk w limit (Some u) all_links fetched =
               Some (tr, Inr (take (nat limit) (all_links @ discoverable w n u)))"
proof (induction n arbitrary: u p all_links fetched)
  case 0
  obtain links nx where p: "p = (links, nx)" by (cases p)
  from 0 have "limit \<le> int (length all_links)" by simp
  with 0 p assms show ?case
    by (subst walk.simps) (simp add: py_slice_to_take)
next
  case (Suc n)
  obtain links nx where p: "p = (links, nx)" by (cases p)
  show ?case
  proof (cases "limit \<le> int (length (all_links @ links))")
    case True
    with Suc.prems p assms show ?thesis
      by (subst walk.simps) (simp add: py_slice_to_take)
  next
    case False
    show ?thesis
    proof (cases nx)
      case None
      with Suc.prems p False show ?thesis by simp
    next
      case (Some v)
      have v: "v \<noteq> []" using Suc.prems(1) p Some next_page_nonempty by blast
      show ?thesis
      proof (cases "get_item_links_from_page w v")
        case (Inl e)
        with Suc.prems p Some False show ?thesis by (simp add: discoverable_fail)
      next
        case (Inr q)
        have "limit \<le> int (length ((all_links @ links) @ discoverable w n v))"
          using Suc.prems p Some by simp
        from Suc.IH [OF Inr v this, of "fetched @ [u]"]
        obtain tr where "walk w limit (Some v) (all_links @ links) (fetched @ [u]) =
               Some (tr, Inr (take (nat limit) ((all_links @ links) @ discoverable w n v)))" by blast
        with Suc.prems p Some False show ?thesis
          by (subst walk.simps) simp
      qed
    qed
  qed
qed

lemma walk_listing_ends:
  assumes "0 \<le> limit"
  shows "listing_ends w n u \<Longrightarrow> u \<noteq> [] \<Longrightarrow>
         \<exists>tr. walk w limit (Some u) all_links fetched =
               Some (tr, Inr (take (nat limit) (all_links @ discoverable w n u)))"
proof (induction n arbitrary: u all_links fetched)
  case 0
  then show ?case by simp
next
  case (Suc n)
  from Suc.prems(1) obtain links nx where
    g: "get_item_links_from_page w u = Inr (links, nx)"
    by (auto split: sum.splits)
  show ?case
  proof (cases "limit \<le> int (length (all_links @ links))")
    case True
    with Suc.prems g assms show ?thesis
      by (subst walk.simps) (simp add: py_slice_to_take)
  next
    case False
    show ?thesis
    proof (cases nx)
      case None
      have "walk w limit None (all_links @ links) (fetched @ [u]) =
              Some (fetched @ [u], Inr (all_links @ links))"
        by (subst walk.simps) simp
      with Suc.prems g None False show ?thesis
        by (subst walk.simps) simp
    next
      case (Some v)
      have v: "v \<noteq> []" using g Some next_page_nonempty by blast
      from Suc.prems(1) g Some have "listing_ends w n v" by simp
      from Suc.IH [OF this v, of "all_links @ links" "fetched @ [u]"]
      obtain tr where "walk w limit (Some v) (all_links @ links) (fetched @ [u]) =
               Some (tr, Inr (take (nat limit) ((all_links @ links) @ discoverable w n v)))"
        by blast
      with Suc.prems g Some False show ?thesis
        by (subst walk.simps) simp
    qed
  qed
qed

lemma walk_trace_prefix:
  assumes "walk w limit url all_links fetched = Some y"
  shows "\<exists>ys. fst y = fetched @ ys"
proof (rule walk.raw_induct
    [where P = "\<lambda>w limit url all_links fetched y. \<exists>ys. fst y = fetched @ ys", OF _ assms],
    goal_cases)
  case (1 walk w limit url all_links fetched y)
  show ?case
  proof (cases url)
    case None
    with 1(2) show ?thesis by auto
  next
    case (Some u)
    show ?thesis
    proof (cases "get_item_links_from_page w u")
      case (Inl e)
      with Some 1(2) show ?thesis by (auto split: if_splits)
    next
      case (Inr p)
      obtain links nx where p: "p = (links, nx)" by (cases p)
      show ?thesis
      proof (cases "u = [] \<or> limit \<le> int (length (all_links @ links))")
        case True
        with Some Inr p 1(2) show ?thesis by (auto split: if_splits)
      next
        case False
        with Some Inr p 1(2)
        have "walk w limit nx (all_links @ links) (fetched @ [u]) = Some y" by simp
        from 1(1) [OF this] show ?thesis by auto
      qed
    qed
  qed
qed

section \<open>The properties\<close>

text \<open>
  C1: for a limit \<open>L \<ge> 0\<close>, a list that \<open>retrieve_user_favorite_links\<close> returns has at
  most \<open>L\<close> links. When the first page can be extracted and at least \<open>L\<close> links are
  discoverable on the pages of the listing, the run returns, and what it returns are the
  first \<open>L\<close> of them, so exactly \<open>L\<close> links. When the listing ends, at a page without
  next-page URL, the run returns as well: the first \<open>L\<close> of all the links of the listing,
  which are all of them when they are fewer than \<open>L\<close>.
\<close>

theorem favorites_limit:
  assumes "0 \<le> L"
  shows "(\<forall>ls. retrieve_user_favorite_links w user L = Some (Inr ls) \<longrightarrow> int (length ls) \<le> L) \<and>
         (\<forall>n p. get_item_links_from_page w (favorites_url user) = Inr p \<and>
                 L \<le> int (length (discoverable w n (favorites_url user))) \<longrightarrow>
            (\<exists>ls. retrieve_user_favorite_links w user L = Some (Inr ls) \<and> int (length ls) = L \<and>
                   ls = take (nat L) (discoverable w n (favorites_url user)))) \<and>
         (\<forall>n. listing_ends w n (favorites_url user) \<longrightarrow>
            retrieve_user_favorite_links w user L =
              Some (Inr (take (nat L) (discoverable w n (favorites_url user))))) \<and>
         (\<forall>n. listing_ends w n (favorites_url user) \<and>
              int (length (discoverable w n (favorites_url user))) < L \<longrightarrow>
            retrieve_user_favorite_links w user L =
              Some (Inr (discoverable w n (favorites_url user))))"
proof -
  have le: "int (length ls) \<le> L"
    if "retrieve_user_favorite_links w user L = Some (Inr ls)" for ls
  proof -
    from that obtain y where y: "walk w L (Some (favorites_url user)) [] [] = Some y" "snd y = Inr ls"
      by (auto simp: retrieve_user_favorite_links_def retrieve_traced_def)
    from walk_length_le [OF y(1)] assms y(2) show ?thesis by simp
  qed
  have reach: "\<exists>ls. retrieve_user_favorite_links w user L = Some (Inr ls) \<and> int (length ls) = L \<and>
             ls = take (nat L) (discoverable w n (favorites_url user))"
    if h: "get_item_links_from_page w (favorites_url user) = Inr p \<and>
             L \<le> int (length (discoverable w n (favorites_url user)))" for n p
  proof -
    from h have "L \<le> int (length ([] @ discoverable w n (favorites_url user)))" by simp
    from walk_reaches [OF assms conjunct1 [OF h] favorites_url_nonempty this, of "[]"]
    obtain tr where "walk w L (Some (favorites_url user)) [] [] =
         Some (tr, Inr (take (nat L) (discoverable w n (favorites_url user))))" by auto
    with h assms show ?thesis
      by (auto simp: retrieve_user_favorite_links_def retrieve_traced_def)
  qed
  have ends: "retrieve_user_favorite_links w user L =
              Some (Inr (take (nat L) (discoverable w n (favorites_url user))))"
    if "listing_ends w n (favorites_url user)" for n
  proof -
    from walk_listing_ends [OF assms that favorites_url_nonempty, of "[]" "[]"]
    obtain tr where "walk w L (Some (favorites_url user)) [] [] =
         Some (tr, Inr (take (nat L) (discoverable w n (favorites_url user))))" by auto
    then show ?thesis
      by (simp add: retrieve_user_favorite_links_def retrieve_traced_def)
  qed
  have below: "retrieve_user_favorite_links w user L =
              Some (Inr (discoverable w n (favorites_url user)))"
    if "listing_ends w n (favorites_url user) \<and>
              int (length (discoverable w n (favorites_url user))) < L" for n
  proof -
    from that have "length (discoverable w n (favorites_url user)) \<le> nat L" by linarith
    with ends [of n] that show ?thesis by simp
  qed
  from le reach ends below show ?thesis by blast
qed

theorem favorites_limit_witness:
  "(0::int) \<le> 3 \<and>
   3 \<le> int (length (discoverable small_world 2 (favorites_url ''u''))) \<and>
   retrieve_user_favorite_links small_world ''u'' 3 =
     Some (Inr [''https://news.ycombinator.com/item?id=1'',
                ''https://news.ycombinator.com/item?id=2'',
                ''https://news.ycombinator.com/item?id=1'']) \<and>
   int (length [''https://news.ycombinator.com/item?id=1'',
                ''https://news.ycombinator.com/item?id=2'',
                ''https://news.ycombinator.com/item?id=1'']) \<le> 3 \<and>
   (0::int) \<le> 7 \<and>
   listing_ends small_world 2 (favorites_url ''u'') \<and>
   int (length (discoverable small_world 2 (favorites_url ''u''))) < 7 \<and>
   retrieve_user_favorite_links small_world ''u'' 7 =
     Some (Inr [''https://news.ycombinator.com/item?id=1'',
                ''https://news.ycombinator.com/item?id=2'',
                ''https://news.ycombinator.com/item?id=1'',
                ''https://news.ycombinator.com/item?id=3''])"
proof -
  have d: "discoverable small_world 2 (favorites_url ''u'') =
             [''https://news.ycombinator.com/item?id=1'',
              ''https://news.ycombinator.com/item?id=2'',
              ''https://news.ycombinator.com/item?id=1'',
              ''https://news.ycombinator.com/item?id=3'']"
    by code_simp
  have g: "get_item_links_from_page small_world (favorites_url ''u'') =
             Inr ([''https://news.ycombinator.com/item?id=1'',
                   ''https://news.ycombinator.com/item?id=2''],
                  Some ''https://news.ycombinator.com/favorites?id=u&p=2'')"
    by code_simp
  have e: "listing_ends small_world 2 (favorites_url ''u'')" by code_simp
  have l3: "(0::int) \<le> 3" by simp
  have l7: "(0::int) \<le> 7" by simp
  note t = favorites_limit [OF l3, of small_world "''u''"]
  note t7 = favorites_limit [OF l7, of small_world "''u''"]
  have n3: "3 \<le> int (length (discoverable small_world 2 (favorites_url ''u'')))"
    by (simp add: d)
  have n7: "int (length (discoverable small_world 2 (favorites_url ''u''))) < 7"
    by (simp add: d)
  from g n3 conjunct1 [OF conjunct2 [OF t]] obtain ls where
    "retrieve_user_favorite_links small_world ''u'' 3 = Some (Inr ls)"
    "ls = take (nat 3) (discoverable small_world 2 (favorites_url ''u''))"
    by blast
  with d have r: "retrieve_user_favorite_links small_world ''u'' 3 =
     Some (Inr [''https://news.ycombinator.com/item?id=1'',
                ''https://news.ycombinator.com/item?id=2'',
                ''https://news.ycombinator.com/item?id=1''])"
    by simp
  have b: "int (length [''https://news.ycombinator.com/item?id=1'',
                ''https://news.ycombinator.com/item?id=2'',
                ''https://news.ycombinator.com/item?id=1'']) \<le> 3"
    by (rule conjunct1 [OF t, rule_format, OF r])
  have "retrieve_user_favorite_links small_world ''u'' 7 =
          Some (Inr (discoverable small_world 2 (favorites_url ''u'')))"
    by (rule conjunct2 [OF conjunct2 [OF conjunct2 [OF t7]], rule_format, OF conjI [OF e n7]])
  then have r7: "retrieve_user_favorite_links small_world ''u'' 7 =
     Some (Inr [''https://news.ycombinator.com/item?id=1'',
                ''https://news.ycombinator.com/item?id=2'',
                ''https://news.ycombinator.com/item?id=1'',
                ''https://news.ycombinator.com/item?id=3''])"
    by (simp only: d)
  from l3 n3 r b l7 e n7 r7 show ?thesis by (intro conjI)
qed

text \<open>
  C2: the claim is that a link occurs at most once in the list of a run, in the order of
  discovery. On the small site the item 1 is listed on both pages of the user \<open>u\<close>: the
  run with limit 10 returns it twice, since only the links of one page are a set.
\<close>

theorem repeated_link_across_pages:
  "retrieve_user_favorite_links small_world ''u'' 10 =
     Some (Inr [''https://news.ycombinator.com/item?id=1'',
                ''https://news.ycombinator.com/item?id=2'',
                ''https://news.ycombinator.com/item?id=1'',
                ''https://news.ycombinator.com/item?id=3'']) \<and>
   \<not> distinct [''https://news.ycombinator.com/item?id=1'',
                ''https://news.ycombinator.com/item?id=2'',
                ''https://news.ycombinator.com/item?id=1'',
                ''https://news.ycombinator.com/item?id=3'']"
  by code_simp

text \<open>
  C3, as stated: in the document for the two example comments with the title
  \<open>Test Thread\<close>, the line \<open>- **alice**:\<close> is immediately followed by the line \<open>  hi\<close>.
  It is not: the author line ends with a newline of its own and \<open>join\<close> adds another.
\<close>

theorem example_author_line_not_followed_by_body:
  "\<not> follows ''- **alice**:'' ''  hi''
       (doc_lines (render ''Test Thread''
          [(0, ''alice'', ''hi''), (1, ''bob'', ''reply'' @ [NL] @ ''line2'')]))"
  by code_simp

text \<open>
  C3, amended: the lines of that document are the heading, the preamble and the section
  heading, each followed by two empty lines, then \<open>- **alice**:\<close>, an empty line,
  \<open>  hi\<close>, an empty line, \<open>  - **bob**:\<close>, an empty line, \<open>    reply\<close>, \<open>    line2\<close> and
  a last empty line: every author line is followed by one empty line, then by the lines
  of the body behind the prefix of the author line and two more spaces, then by an empty
  line.
\<close>

theorem example_rendered_lines:
  "doc_lines (render ''Test Thread''
      [(0, ''alice'', ''hi''), (1, ''bob'', ''reply'' @ [NL] @ ''line2'')]) =
   [''# Test Thread'', [], [], ''## Context'', [],
    ''The following is a Hacker News thread in markdown format. The comments discuss a'',
    ''certain link, of which the content (besides the title) is not included here. The'',
    ''comments are indented according to the level of the comment, with the top-level'',
    ''comment being unindented.'', [], [], ''## Comments'', [], [],
    ''- **alice**:'', [], ''  hi'', [],
    ''  - **bob**:'', [], ''    reply'', ''    line2'', []]"
  by code_simp

text \<open>
  C4: when the text of the fetched listing page is the sentinel \<open>No such user.\<close>, the
  extraction raises the invalid-user error (\<open>ValueError\<close>) and returns no links; when the
  text is anything else, it does not raise that error.
\<close>

theorem no_such_user_raises:
  assumes "web w url = Some sp"
  shows "(soup_text sp = ''No such user.'' \<longrightarrow> get_item_links_from_page w url = Inl ValueError) \<and>
         (soup_text sp \<noteq> ''No such user.'' \<longrightarrow> get_item_links_from_page w url \<noteq> Inl ValueError)"
  using assms
  by (auto simp: get_item_links_from_page_def user_exists_def Let_def split: option.splits)

theorem no_such_user_raises_witness:
  "web small_world (favorites_url ''ghost'') = Some page_no_user \<and>
   get_item_links_from_page small_world (favorites_url ''ghost'') = Inl ValueError \<and>
   web small_world (favorites_url ''u'') = Some page_one \<and>
   get_item_links_from_page small_world (favorites_url ''u'') \<noteq> Inl ValueError"
proof -
  have g: "web small_world (favorites_url ''ghost'') = Some page_no_user" by code_simp
  have u: "web small_world (favorites_url ''u'') = Some page_one" by code_simp
  have tg: "soup_text page_no_user = ''No such user.''" by code_simp
  have tu: "soup_text page_one \<noteq> ''No such user.''" by code_simp
  from no_such_user_raises [OF g] no_such_user_raises [OF u] g u tg tu show ?thesis by blast
qed

text \<open>
  C5: in a thread that the flattener gets through, the depth of the record of row \<open>i\<close> is
  0 when the row has no indentation cell or the cell has no image, and otherwise the
  integer value of the image's \<open>width\<close> divided by 40, rounded down. And the flattener gets
  through every thread whose rows have an \<open>id\<close> and a comment container and, where there
  is an image, a \<open>width\<close> that is an integer: a row without indentation cell or image is
  no obstacle.
\<close>

theorem flattener_depth:
  "(\<forall>cs i. flatten [] rows = Inr cs \<and> i < length rows \<longrightarrow>
      (ind (rows ! i) = None \<longrightarrow> fst (cs ! i) = 0) \<and>
      (\<forall>td. ind (rows ! i) = Some td \<and> img td = None \<longrightarrow> fst (cs ! i) = 0) \<and>
      (\<forall>td im wd. ind (rows ! i) = Some td \<and> img td = Some im \<and> width im = Some wd \<longrightarrow>
         (\<exists>px. py_int wd = Inr px \<and> fst (cs ! i) = px div 40))) \<and>
   ((\<forall>r\<in>set rows. row_id r \<noteq> None \<and> comment r \<noteq> None \<and>
        (\<forall>td im. ind r = Some td \<and> img td = Some im \<longrightarrow>
           (\<exists>wd px. width im = Some wd \<and> py_int wd = Inr px))) \<longrightarrow>
      (\<exists>cs. flatten [] rows = Inr cs \<and> length cs = length rows))"
proof (intro conjI allI impI)
  fix cs i
  assume h: "flatten [] rows = Inr cs \<and> i < length rows"
  then obtain px where px: "indent_px (rows ! i) = Inr px" "fst (cs ! i) = px div 40"
    using row_record_depth [OF flatten_nth] by blast
  from px show "ind (rows ! i) = None \<Longrightarrow> fst (cs ! i) = 0"
    by (auto simp: indent_px_def)
  from px show "\<And>td. ind (rows ! i) = Some td \<and> img td = None \<Longrightarrow> fst (cs ! i) = 0"
    by (auto simp: indent_px_def)
  from px show "\<And>td im wd. ind (rows ! i) = Some td \<and> img td = Some im \<and> width im = Some wd \<Longrightarrow>
         \<exists>px. py_int wd = Inr px \<and> fst (cs ! i) = px div 40"
    by (auto simp: indent_px_def)
next
  assume "\<forall>r\<in>set rows. row_id r \<noteq> None \<and> comment r \<noteq> None \<and>
        (\<forall>td im. ind r = Some td \<and> img td = Some im \<longrightarrow>
           (\<exists>wd px. width im = Some wd \<and> py_int wd = Inr px))"
  then show "\<exists>cs. flatten [] rows = Inr cs \<and> length cs = length rows"
    by (rule intact_rows_flatten)
qed

theorem flattener_depth_witness:
  "flatten [] mixed_rows = Inr mixed_records \<and>
   (\<exists>cs. flatten [] mixed_rows = Inr cs \<and> length cs = length mixed_rows) \<and>
   (\<exists>px. py_int ''40'' = Inr px \<and> fst (mixed_records ! 1) = px div 40) \<and>
   ind (mixed_rows ! 2) = None \<and> fst (mixed_records ! 2) = 0 \<and>
   ind (mixed_rows ! 3) = Some (IndTd None) \<and> fst (mixed_records ! 3) = 0 \<and>
   (\<exists>px. py_int '' 80 '' = Inr px \<and> fst (mixed_records ! 4) = px div 40)"
proof -
  note t = flattener_depth [of mixed_rows]
  note t1 = conjunct1 [OF t, rule_format]
  have s: "\<exists>cs. flatten [] mixed_rows = Inr cs \<and> length cs = length mixed_rows"
    by (rule conjunct2 [OF t, THEN mp, OF mixed_rows_intact])
  have i1: "flatten [] mixed_rows = Inr mixed_records \<and> 1 < length mixed_rows"
    using mixed_rows_flat by (simp add: mixed_rows_def)
  have i2: "flatten [] mixed_rows = Inr mixed_records \<and> 2 < length mixed_rows"
    using mixed_rows_flat by (simp add: mixed_rows_def)
  have i3: "flatten [] mixed_rows = Inr mixed_records \<and> 3 < length mixed_rows"
    using mixed_rows_flat by (simp add: mixed_rows_def)
  have i4: "flatten [] mixed_rows = Inr mixed_records \<and> 4 < length mixed_rows"
    using mixed_rows_flat by (simp add: mixed_rows_def)
  have r1: "ind (mixed_rows ! 1) = Some (IndTd (Some (Img (Some ''40'')))) \<and>
            img (IndTd (Some (Img (Some ''40'')))) = Some (Img (Some ''40'')) \<and>
            width (Img (Some ''40'')) = Some ''40''"
    by code_simp
  have r2: "ind (mixed_rows ! 2) = None" by code_simp
  have r3: "ind (mixed_rows ! 3) = Some (IndTd None)" by code_simp
  have r3': "ind (mixed_rows ! 3) = Some (IndTd None) \<and> img (IndTd None) = None" by code_simp
  have r4: "ind (mixed_rows ! 4) = Some (IndTd (Some (Img (Some '' 80 '')))) \<and>
            img (IndTd (Some (Img (Some '' 80 '')))) = Some (Img (Some '' 80 '')) \<and>
            width (Img (Some '' 80 '')) = Some '' 80 ''"
    by code_simp
  have d1: "\<exists>px. py_int ''40'' = Inr px \<and> fst (mixed_records ! 1) = px div 40"
    using t1 [OF i1] r1 by blast
  have d2: "fst (mixed_records ! 2) = 0" using t1 [OF i2] r2 by blast
  have d3: "fst (mixed_records ! 3) = 0" using t1 [OF i3] r3' by blast
  have d4: "\<exists>px. py_int '' 80 '' = Inr px \<and> fst (mixed_records ! 4) = px div 40"
    using t1 [OF i4] r4 by blast
  from mixed_rows_flat s d1 r2 d2 r3 d3 d4 show ?thesis by (intro conjI)
qed




text \<open>
  C7: rendering depends on the title and the comment records only: the same inputs give
  the same document, byte for byte; and two runs that get the same page for a thread URL
  produce the same title and document, whatever else the two worlds hold.
\<close>

theorem render_deterministic:
  "(t1 = t2 \<and> cs1 = cs2 \<longrightarrow> render t1 cs1 = render t2 cs2) \<and>
   (web w1 url = web w2 url \<longrightarrow> fetch_hn_thread_markdown w1 url = fetch_hn_thread_markdown w2 url)"
  by (simp add: fetch_hn_thread_markdown_def)

theorem render_deterministic_witness:
  "web small_world ''https://news.ycombinator.com/item?id=1'' =
     web other_world ''https://news.ycombinator.com/item?id=1'' \<and>
   fetch_hn_thread_markdown small_world ''https://news.ycombinator.com/item?id=1'' =
     fetch_hn_thread_markdown other_world ''https://news.ycombinator.com/item?id=1'' \<and>
   render ''Test Thread'' thread_records = render ''Test Thread'' thread_records"
proof -
  have e: "web small_world ''https://news.ycombinator.com/item?id=1'' =
           web other_world ''https://news.ycombinator.com/item?id=1''"
    by (simp add: small_world_def other_world_def)
  have f: "fetch_hn_thread_markdown small_world ''https://news.ycombinator.com/item?id=1'' =
           fetch_hn_thread_markdown other_world ''https://news.ycombinator.com/item?id=1''"
    by (rule conjunct2 [OF render_deterministic, THEN mp, OF e])
  have r: "render ''Test Thread'' thread_records = render ''Test Thread'' thread_records"
    by (rule conjunct1 [OF render_deterministic, THEN mp]) (rule conjI [OF refl refl])
  from e f r show ?thesis by (intro conjI)
qed

text \<open>
  C8: in a thread that the flattener gets through, the author of the record of row \<open>i\<close> is
  the placeholder \<open>[deleted]\<close> when the row has no author link, and the text of the link
  otherwise. And the flattener gets through every thread whose rows have an \<open>id\<close> and a
  comment container and, where there is an image, a \<open>width\<close> that is an integer, with or
  without author links.
\<close>

theorem flattener_author:
  "(\<forall>cs i. flatten [] rows = Inr cs \<and> i < length rows \<longrightarrow>
      (hnuser (rows ! i) = None \<longrightarrow> fst (snd (cs ! i)) = ''[deleted]'') \<and>
      (\<forall>name. hnuser (rows ! i) = Some name \<longrightarrow> fst (snd (cs ! i)) = name)) \<and>
   ((\<forall>r\<in>set rows. row_id r \<noteq> None \<and> comment r \<noteq> None \<and>
        (\<forall>td im. ind r = Some td \<and> img td = Some im \<longrightarrow>
           (\<exists>wd px. width im = Some wd \<and> py_int wd = Inr px))) \<longrightarrow>
      (\<exists>cs. flatten [] rows = Inr cs \<and> length cs = length rows))"
proof (intro conjI allI impI)
  fix cs i
  assume h: "flatten [] rows = Inr cs \<and> i < length rows"
  then have a: "fst (snd (cs ! i)) =
      (case hnuser (rows ! i) of Some t \<Rightarrow> t | None \<Rightarrow> ''[deleted]'')"
    using row_record_author [OF flatten_nth] by blast
  from a show "hnuser (rows ! i) = None \<Longrightarrow> fst (snd (cs ! i)) = ''[deleted]''" by simp
  from a show "\<And>name. hnuser (rows ! i) = Some name \<Longrightarrow> fst (snd (cs ! i)) = name" by simp
next
  assume "\<forall>r\<in>set rows. row_id r \<noteq> None \<and> comment r \<noteq> None \<and>
        (\<forall>td im. ind r = Some td \<and> img td = Some im \<longrightarrow>
           (\<exists>wd px. width im = Some wd \<and> py_int wd = Inr px))"
  then show "\<exists>cs. flatten [] rows = Inr cs \<and> length cs = length rows"
    by (rule intact_rows_flatten)
qed

theorem flattener_author_witness:
  "flatten [] mixed_rows = Inr mixed_records \<and>
   (\<exists>cs. flatten [] mixed_rows = Inr cs \<and> length cs = length mixed_rows) \<and>
   hnuser (mixed_rows ! 1) = Some ''bob'' \<and> fst (snd (mixed_records ! 1)) = ''bob'' \<and>
   hnuser (mixed_rows ! 2) = None \<and> fst (snd (mixed_records ! 2)) = ''[deleted]'' \<and>
   hnuser (mixed_rows ! 4) = None \<and> ind (mixed_rows ! 4) \<noteq> None \<and>
   fst (snd (mixed_records ! 4)) = ''[deleted]''"
proof -
  note t = flattener_author [of mixed_rows]
  note t1 = conjunct1 [OF t, rule_format]
  have s: "\<exists>cs. flatten [] mixed_rows = Inr cs \<and> length cs = length mixed_rows"
    by (rule conjunct2 [OF t, THEN mp, OF mixed_rows_intact])
  have i1: "flatten [] mixed_rows = Inr mixed_records \<and> 1 < length mixed_rows"
    using mixed_rows_flat by (simp add: mixed_rows_def)
  have i2: "flatten [] mixed_rows = Inr mixed_records \<and> 2 < length mixed_rows"
    using mixed_rows_flat by (simp add: mixed_rows_def)
  have i4: "flatten [] mixed_rows = Inr mixed_records \<and> 4 < length mixed_rows"
    using mixed_rows_flat by (simp add: mixed_rows_def)
  have r1: "hnuser (mixed_rows ! 1) = Some ''bob''" by code_simp
  have r2: "hnuser (mixed_rows ! 2) = None" by code_simp
  have r4: "hnuser (mixed_rows ! 4) = None" by code_simp
  have r4': "ind (mixed_rows ! 4) \<noteq> None" by code_simp
  have d1: "fst (snd (mixed_records ! 1)) = ''bob''" using t1 [OF i1] r1 by blast
  have d2: "fst (snd (mixed_records ! 2)) = ''[deleted]''" using t1 [OF i2] r2 by blast
  have d4: "fst (snd (mixed_records ! 4)) = ''[deleted]''" using t1 [OF i4] r4 by blast
  from mixed_rows_flat s r1 d1 r2 d2 r4 r4' d4 show ?thesis by (intro conjI)
qed

text \<open>
  C9: when some row of a fetched thread page has no comment container, the run produces
  no document: it ends in an error, with no fallback and no skipping of the row. When
  every row has an \<open>id\<close> and a readable indentation, that error is the failed access to the
  missing container (\<open>AttributeError\<close>).
\<close>

theorem missing_container_is_fatal:
  assumes "web w url = Some sp" and "r \<in> set (comment_rows sp)" and "comment r = None"
  shows "(\<exists>e. fetch_hn_thread_markdown w url = Inl e) \<and>
         ((\<forall>q\<in>set (comment_rows sp). row_id q \<noteq> None \<and> (\<exists>px. indent_px q = Inr px)) \<longrightarrow>
            fetch_hn_thread_markdown w url = Inl AttributeError)"
proof -
  from assms(3) obtain e where "row_record r = Inl e"
    using row_record_no_container by blast
  with assms(2) obtain e' where f: "flatten [] (comment_rows sp) = Inl e'"
    using flatten_fails by blast
  then have r: "fetch_hn_thread_markdown w url = Inl e'"
    using assms(1) by (simp add: fetch_hn_thread_markdown_def)
  from f obtain q where q: "q \<in> set (comment_rows sp)" "row_record q = Inl e'"
    using flatten_Inl by blast
  have "e' = AttributeError"
    if "\<forall>q\<in>set (comment_rows sp). row_id q \<noteq> None \<and> (\<exists>px. indent_px q = Inr px)"
    using that q row_record_Inl_cases by blast
  with r show ?thesis by blast
qed

theorem missing_container_is_fatal_witness:
  "web small_world ''https://news.ycombinator.com/item?id=2'' = Some thread_broken \<and>
   row_broken \<in> set (comment_rows thread_broken) \<and> comment row_broken = None \<and>
   fetch_hn_thread_markdown small_world ''https://news.ycombinator.com/item?id=2'' = Inl AttributeError"
proof -
  have w: "web small_world ''https://news.ycombinator.com/item?id=2'' = Some thread_broken"
    by code_simp
  have m: "row_broken \<in> set (comment_rows thread_broken)" by (simp add: thread_broken_def)
  have c: "comment row_broken = None" by (simp add: row_broken_def)
  have ok: "\<forall>q\<in>set (comment_rows thread_broken). row_id q \<noteq> None \<and> (\<exists>px. indent_px q = Inr px)"
    by (simp add: thread_broken_def row_alice_def row_broken_def row_bob_def indent_px_def
        py_int_def int_strip_def is_int_space_def int_literal_def INT_MAX_STR_DIGITS_def
        is_digit_def)
  from missing_container_is_fatal [OF w m c] ok w m c show ?thesis by blast
qed

text \<open>
  C10: with limit 0 the walker still fetches the first listing page, exactly that one, and
  then returns the empty list, or raises what the extraction of that page raises; for a
  user that does not exist this is the invalid-user error, for every limit; and a run that
  ends has fetched the first listing page first, for every limit.
\<close>

theorem limit_zero_still_fetches:
  "retrieve_traced w user 0 =
     Some ([favorites_url user],
           case get_item_links_from_page w (favorites_url user) of
             Inl e \<Rightarrow> Inl e
           | Inr p \<Rightarrow> Inr []) \<and>
   (\<forall>sp limit. web w (favorites_url user) = Some sp \<and> soup_text sp = ''No such user.'' \<longrightarrow>
      retrieve_traced w user limit = Some ([favorites_url user], Inl ValueError)) \<and>
   (\<forall>limit tr res. retrieve_traced w user limit = Some (tr, res) \<longrightarrow>
      tr \<noteq> [] \<and> hd tr = favorites_url user)"
proof -
  have zero: "retrieve_traced w user 0 =
     Some ([favorites_url user],
           case get_item_links_from_page w (favorites_url user) of
             Inl e \<Rightarrow> Inl e
           | Inr p \<Rightarrow> Inr [])"
    unfolding retrieve_traced_def
    by (subst walk.simps)
       (simp add: favorites_url_nonempty py_slice_to_def split: sum.splits prod.splits)
  have ghost: "retrieve_traced w user limit = Some ([favorites_url user], Inl ValueError)"
    if "web w (favorites_url user) = Some sp \<and> soup_text sp = ''No such user.''" for sp limit
  proof -
    from that have "get_item_links_from_page w (favorites_url user) = Inl ValueError"
      by (simp add: get_item_links_from_page_def user_exists_def)
    then show ?thesis
      unfolding retrieve_traced_def
      by (subst walk.simps) (simp add: favorites_url_nonempty)
  qed
  have first: "tr \<noteq> [] \<and> hd tr = favorites_url user"
    if r: "retrieve_traced w user limit = Some (tr, res)" for limit tr res
  proof (cases "get_item_links_from_page w (favorites_url user)")
    case (Inl e)
    with r show ?thesis
      unfolding retrieve_traced_def
      by (subst (asm) walk.simps) (auto simp: favorites_url_nonempty)
  next
    case (Inr p)
    obtain links nx where p: "p = (links, nx)" by (cases p)
    show ?thesis
    proof (cases "limit \<le> int (length links)")
      case True
      with r Inr p show ?thesis
        unfolding retrieve_traced_def
        by (subst (asm) walk.simps) (auto simp: favorites_url_nonempty)
    next
      case False
      with r Inr p have "walk w limit nx links [favorites_url user] = Some (tr, res)"
        unfolding retrieve_traced_def
        by (subst (asm) walk.simps) (auto simp: favorites_url_nonempty)
      from walk_trace_prefix [OF this] show ?thesis by auto
    qed
  qed
  from zero ghost first show ?thesis by blast
qed

theorem limit_zero_still_fetches_witness:
  "retrieve_traced small_world ''u'' 0 = Some ([favorites_url ''u''], Inr []) \<and>
   retrieve_traced small_world ''ghost'' 0 = Some ([favorites_url ''ghost''], Inl ValueError)"
proof -
  have g: "web small_world (favorites_url ''ghost'') = Some page_no_user \<and>
           soup_text page_no_user = ''No such user.''" by code_simp
  have u: "get_item_links_from_page small_world (favorites_url ''u'') =
             Inr ([''https://news.ycombinator.com/item?id=1'',
                   ''https://news.ycombinator.com/item?id=2''],
                  Some ''https://news.ycombinator.com/favorites?id=u&p=2'')"
    by code_simp
  from limit_zero_still_fetches [of small_world "''u''"] u
  have "retrieve_traced small_world ''u'' 0 = Some ([favorites_url ''u''], Inr [])" by simp
  moreover from limit_zero_still_fetches [of small_world "''ghost''"] g
  have "retrieve_traced small_world ''ghost'' 0 = Some ([favorites_url ''ghost''], Inl ValueError)"
    by blast
  ultimately show ?thesis by blast
qed

end
